theory Spec2Isabelle
  imports Complex_Main "HOL-Library.Sublist"
begin

section \<open>Co-mention network: data model\<close>

text \<open>
  The rows the graph component reads. Of \<open>EntityMentionCount\<close> the build reads
  \<open>entity_id\<close>, \<open>canonical_name\<close>, \<open>total_mentions\<close> and \<open>sections\<close> (guarded by
  \<open>ent.sections || []\<close>, hence an option). Counts are non-negative integers delivered by
  the backend, so they are \<open>nat\<close>; the slider-controlled thresholds are integers from 1.
\<close>

record EntityMentionCount =
  entity_id :: string
  canonical_name :: string
  total_mentions :: nat
  sections :: "string list option"

record CoMention =
  entity_a_id :: string
  entity_a_name :: string
  entity_b_id :: string
  entity_b_name :: string
  co_occurrence_count :: nat
  shared_documents :: nat

text \<open>
  \<open>GraphNode\<close> and \<open>GraphLink\<close> of the component. JavaScript numbers that hold
  radii and coordinates are modelled as exact reals. The fields \<open>node_x\<close>, \<open>node_y\<close>
  hold the initial placement on the circle; the d3-force simulation that runs afterwards is an
  external library which rewrites positions only and is not modelled.
\<close>

record GraphNode =
  id_node :: string
  node_name :: string
  mentions :: nat
  radius :: real
  color :: string
  showLabel :: bool
  node_x :: real
  node_y :: real

record GraphLink =
  source :: string
  target :: string
  sourceId :: string
  targetId :: string
  coOccurrences :: nat
  sharedDocs :: nat

record Graph =
  nodes :: "GraphNode list"
  links :: "GraphLink list"

definition VBOX_W :: real where "VBOX_W = 1000"
definition VBOX_H :: real where "VBOX_H = 600"

definition SECTION_COLORS :: "(string \<times> string) list" where
  "SECTION_COLORS =
     [(''court'', ''#D4A843''), (''doj'', ''#4a8bc2''), (''foia'', ''#5b8a72''),
      (''house'', ''#7c6e9b''), (''fbi'', ''#c25d4a'')]"

section \<open>Helpers\<close>

text \<open>\<open>String.prototype.toLowerCase\<close> on the ASCII range, which section labels use.\<close>

definition toLowerCase_char :: "char \<Rightarrow> char" where
  "toLowerCase_char c =
     (let n = (of_char c :: nat) in if 65 \<le> n \<and> n \<le> 90 then char_of (n + 32) else c)"

definition toLowerCase :: "string \<Rightarrow> string" where
  "toLowerCase s = map toLowerCase_char s"

text \<open>\<open>String.prototype.includes\<close>: the key occurs as a contiguous substring.\<close>

fun includes_str :: "string \<Rightarrow> string \<Rightarrow> bool" where
  "includes_str [] key = (key = [])"
| "includes_str (c # cs) key = (prefix key (c # cs) \<or> includes_str cs key)"

fun getNodeColor :: "string list \<Rightarrow> string" where
  "getNodeColor [] = ''#8892a4''"
| "getNodeColor (sec # rest) =
     (case find (\<lambda>(key, col). includes_str (toLowerCase sec) key) SECTION_COLORS of
        Some (key, col) \<Rightarrow> col
      | None \<Rightarrow> getNodeColor rest)"

text \<open>
  A JavaScript \<open>Set<string>\<close> iterates in insertion order and ignores a value it already
  holds: a duplicate-free list, appended to.
\<close>

definition set_add :: "string list \<Rightarrow> string \<Rightarrow> string list" where
  "set_add s v = (if v \<in> set s then s else s @ [v])"

section \<open>Graph build (the \<open>useMemo\<close> of \<open>NetworkGraph\<close>)\<close>

text \<open>\<open>for (const e of rawEntities) entityMap.set(e.entity_id, e)\<close>: a later row wins.\<close>

definition mkEntityMap :: "EntityMentionCount list \<Rightarrow> (string \<rightharpoonup> EntityMentionCount)" where
  "mkEntityMap rawEntities = foldl (\<lambda>m e. m(entity_id e \<mapsto> e)) Map.empty rawEntities"

text \<open>
  One round of the loop that collects node identifiers: each endpoint is tested on its own
  (\<open>a && a.total_mentions >= minMentions\<close>, then the same for \<open>b\<close>).
\<close>

definition collectStep ::
  "(string \<rightharpoonup> EntityMentionCount) \<Rightarrow> nat \<Rightarrow> string list \<Rightarrow> CoMention \<Rightarrow> string list" where
  "collectStep entityMap minMentions nodeIds cm =
     (let a = entityMap (entity_a_id cm);
          b = entityMap (entity_b_id cm);
          ids1 = (case a of
                    Some ea \<Rightarrow> if total_mentions ea \<ge> minMentions
                               then set_add nodeIds (entity_a_id cm) else nodeIds
                  | None \<Rightarrow> nodeIds)
      in (case b of
            Some eb \<Rightarrow> if total_mentions eb \<ge> minMentions
                       then set_add ids1 (entity_b_id cm) else ids1
          | None \<Rightarrow> ids1))"

definition collectNodeIds ::
  "(string \<rightharpoonup> EntityMentionCount) \<Rightarrow> CoMention list \<Rightarrow> nat \<Rightarrow> string list" where
  "collectNodeIds entityMap rawCoMentions minMentions =
     foldl (collectStep entityMap minMentions) [] rawCoMentions"

text \<open>
  \<open>Math.max(...Array.from(nodeIds).map(id => entityMap.get(id)?.total_mentions || 0), 1)\<close>.
\<close>

definition maxMentionsOf :: "(string \<rightharpoonup> EntityMentionCount) \<Rightarrow> string list \<Rightarrow> nat" where
  "maxMentionsOf entityMap nodeIds =
     foldr max (map (\<lambda>i. case entityMap i of Some e \<Rightarrow> total_mentions e | None \<Rightarrow> 0) nodeIds) 1"

text \<open>
  The loop that builds the nodes; \<open>idx\<close> advances only when a node is pushed, \<open>sz\<close> is
  \<open>nodeIds.size\<close>.
\<close>

fun buildNodes ::
  "(string \<rightharpoonup> EntityMentionCount) \<Rightarrow> real \<Rightarrow> nat \<Rightarrow> string list \<Rightarrow> nat \<Rightarrow> GraphNode list" where
  "buildNodes entityMap maxLog sz [] idx = []"
| "buildNodes entityMap maxLog sz (i # rest) idx =
     (case entityMap i of
        None \<Rightarrow> buildNodes entityMap maxLog sz rest idx
      | Some ent \<Rightarrow>
          (let logScale = log 2 (real (total_mentions ent + 1));
               angle = (2 * pi * real idx) / real sz
           in \<lparr> id_node = i,
                node_name = canonical_name ent,
                mentions = total_mentions ent,
                radius = 5 + (logScale / maxLog) * 18,
                color = getNodeColor (case sections ent of Some ss \<Rightarrow> ss | None \<Rightarrow> []),
                showLabel = (total_mentions ent \<ge> 50),
                node_x = VBOX_W / 2 + 200 * cos angle,
                node_y = VBOX_H / 2 + 200 * sin angle \<rparr>
              # buildNodes entityMap maxLog sz rest (idx + 1)))"

definition mkLink :: "CoMention \<Rightarrow> GraphLink" where
  "mkLink cm = \<lparr> source = entity_a_id cm, target = entity_b_id cm,
                 sourceId = entity_a_id cm, targetId = entity_b_id cm,
                 coOccurrences = co_occurrence_count cm,
                 sharedDocs = shared_documents cm \<rparr>"

definition buildLinks :: "string list \<Rightarrow> CoMention list \<Rightarrow> GraphLink list" where
  "buildLinks nodeIds rawCoMentions =
     map mkLink
       (take 500
          (filter (\<lambda>cm. entity_a_id cm \<in> set nodeIds \<and> entity_b_id cm \<in> set nodeIds)
             rawCoMentions))"

definition buildGraph :: "EntityMentionCount list \<Rightarrow> CoMention list \<Rightarrow> nat \<Rightarrow> Graph" where
  "buildGraph rawEntities rawCoMentions minMentions =
     (if length rawEntities = 0 then \<lparr> nodes = [], links = [] \<rparr>
      else
        let entityMap = mkEntityMap rawEntities;
            nodeIds = collectNodeIds entityMap rawCoMentions minMentions;
            maxMentions = maxMentionsOf entityMap nodeIds;
            maxLog = log 2 (real (maxMentions + 1));
            graphNodes = buildNodes entityMap maxLog (length nodeIds) nodeIds 0;
            graphLinks = buildLinks nodeIds rawCoMentions
        in if length graphNodes = 0 then \<lparr> nodes = [], links = [] \<rparr>
           else \<lparr> nodes = graphNodes, links = graphLinks \<rparr>)"

text \<open>
  Modelled from the spec: the backend operation "list co-occurrence pairs" (the RPC
  \<open>get_co_mentions\<close> behind \<open>getCoMentions\<close>) is not part of the source tree. The
  specification describes it as taking a minimum co-occurrence count and a limit and returning
  the most significant pairs, ordered by co-occurrence count; the pairs kept are those whose
  count reaches the minimum.
\<close>

definition getCoMentions :: "nat \<Rightarrow> nat \<Rightarrow> CoMention list \<Rightarrow> CoMention list" where
  "getCoMentions minCoOccurrences limit allPairs =
     take limit
       (rev (sort_key co_occurrence_count
          (filter (\<lambda>cm. co_occurrence_count cm \<ge> minCoOccurrences) allPairs)))"

text \<open>The fetch effect asks for at most 500 pairs and the build runs on what it stored.\<close>

definition pipeline ::
  "EntityMentionCount list \<Rightarrow> CoMention list \<Rightarrow> nat \<Rightarrow> nat \<Rightarrow> Graph" where
  "pipeline ents allPairs minMentions minCoOccurrences =
     buildGraph ents (getCoMentions minCoOccurrences 500 allPairs) minMentions"

text \<open>
  The maximum the specification normalises against: the largest mention count among the
  nodes of the snapshot, floored at 1.
\<close>

definition snapshotMax :: "GraphNode list \<Rightarrow> nat" where
  "snapshotMax ns = foldr max (map mentions ns) 1"

text \<open>The unordered pair of identifiers an input pair or an edge stands for.\<close>

definition pairKey :: "CoMention \<Rightarrow> string set" where
  "pairKey cm = {entity_a_id cm, entity_b_id cm}"

definition linkKey :: "GraphLink \<Rightarrow> string set" where
  "linkKey l = {sourceId l, targetId l}"

section \<open>Interaction layer: viewport, selection and click timers\<close>

text \<open>
  The viewBox state and the bounding rectangle of the svg element. JavaScript numbers are
  IEEE-754 doubles: every sum, difference, product and quotient is the exact result rounded
  to a double, and a decimal literal such as \<open>1.06\<close> denotes the nearest double. The rounding
  is the parameter \<open>fl\<close> of the handlers that compute; nothing is assumed of it. The integer
  constants and \<open>VBOX_W * 4\<close>, \<open>VBOX_H * 4\<close> are exact.
\<close>

record ViewBox =
  box_x :: real
  box_y :: real
  box_w :: real
  box_h :: real

record Rect =
  rect_left :: real
  rect_top :: real
  rect_width :: real
  rect_height :: real

text \<open>
  The component state the handlers touch. \<open>wheelListener\<close> tells whether the wheel effect
  installed its listener on the svg element. \<open>clickTimeouts\<close> is the \<open>Map\<close> from node
  identifier to timer handle; \<open>timers\<close> is the event loop's set of scheduled 300 ms
  callbacks, each keyed by its handle and remembering the node identifier its closure captured;
  \<open>nextTimer\<close> is the next handle \<open>setTimeout\<close> hands out (handles are positive, so a
  stored handle passes the test \<open>if (existing)\<close>); \<open>navigations\<close> logs the
  \<open>router.push\<close> calls in order.
\<close>

record Interaction =
  viewBox :: ViewBox
  isPanning :: bool
  lastMouse :: "real \<times> real"
  wheelListener :: bool
  selectedNode :: "string option"
  clickTimeouts :: "string \<rightharpoonup> nat"
  timers :: "nat \<rightharpoonup> string"
  nextTimer :: nat
  navigations :: "string list"

definition initialViewBox :: ViewBox where
  "initialViewBox = \<lparr> box_x = 0, box_y = 0, box_w = VBOX_W, box_h = VBOX_H \<rparr>"

text \<open>
  The render shows the skeleton card, which has no svg element, while
  \<open>loading && rawEntities.length === 0\<close>.
\<close>

definition showsSkeleton :: "bool \<Rightarrow> EntityMentionCount list \<Rightarrow> bool" where
  "showsSkeleton loading rawEntities = (loading \<and> length rawEntities = 0)"

text \<open>
  The wheel effect has the dependency list \<open>[]\<close>: it runs once, after the first render. With
  no svg element (\<open>if (!svg) return\<close>) it installs nothing; otherwise it adds the listener.
  The result tells whether the listener is installed.
\<close>

definition wheelEffect :: "bool \<Rightarrow> bool" where
  "wheelEffect svgPresent = (if \<not> svgPresent then False else True)"

text \<open>
  The state after mounting: the first render happens with \<open>loading = true\<close> and
  \<open>rawEntities = []\<close>, the initial values of the two \<open>useState\<close> calls.
\<close>

definition initialInteraction :: Interaction where
  "initialInteraction =
     \<lparr> viewBox = initialViewBox, isPanning = False, lastMouse = (0, 0),
       wheelListener = wheelEffect (\<not> showsSkeleton True []),
       selectedNode = None, clickTimeouts = Map.empty, timers = Map.empty,
       nextTimer = 1, navigations = [] \<rparr>"

text \<open>The updater the wheel handler passes to \<open>setViewBox\<close>.\<close>

definition wheelZoom ::
  "(real \<Rightarrow> real) \<Rightarrow> real \<Rightarrow> real \<Rightarrow> real \<Rightarrow> Rect \<Rightarrow> ViewBox \<Rightarrow> ViewBox" where
  "wheelZoom fl clientX clientY deltaY rect prev =
     (let mx = fl (box_x prev
                   + fl (fl (fl (clientX - rect_left rect) / rect_width rect) * box_w prev));
          my = fl (box_y prev
                   + fl (fl (fl (clientY - rect_top rect) / rect_height rect) * box_h prev));
          factor = (if deltaY > 0 then fl (106 / 100) else fl (94 / 100));
          newW = max 200 (min (VBOX_W * 4) (fl (box_w prev * factor)));
          newH = max 120 (min (VBOX_H * 4) (fl (box_h prev * factor)))
      in \<lparr> box_x = fl (mx - fl (fl (mx - box_x prev) * fl (newW / box_w prev))),
           box_y = fl (my - fl (fl (my - box_y prev) * fl (newH / box_h prev))),
           box_w = newW,
           box_h = newH \<rparr>)"

definition handleWheel ::
  "(real \<Rightarrow> real) \<Rightarrow> real \<Rightarrow> real \<Rightarrow> real \<Rightarrow> Rect \<Rightarrow> Interaction \<Rightarrow> Interaction" where
  "handleWheel fl clientX clientY deltaY rect s =
     s\<lparr> viewBox := wheelZoom fl clientX clientY deltaY rect (viewBox s) \<rparr>"

definition handleMouseDown :: "nat \<Rightarrow> string \<Rightarrow> real \<Rightarrow> real \<Rightarrow> Interaction \<Rightarrow> Interaction" where
  "handleMouseDown button tag clientX clientY s =
     (if button \<noteq> 0 then s
      else if tag = ''circle'' \<or> tag = ''text'' then s
      else s\<lparr> isPanning := True, lastMouse := (clientX, clientY) \<rparr>)"

text \<open>
  The pan handler. It reads \<open>viewBox.w\<close> and \<open>viewBox.h\<close> of the latest render, taken here
  to be the current state; they only scale the offsets.
\<close>

definition handleMouseMove ::
  "(real \<Rightarrow> real) \<Rightarrow> real \<Rightarrow> real \<Rightarrow> Rect \<Rightarrow> Interaction \<Rightarrow> Interaction" where
  "handleMouseMove fl clientX clientY rect s =
     (if \<not> isPanning s then s
      else
        let dx = fl (fl (clientX - fst (lastMouse s))
                     * fl (box_w (viewBox s) / rect_width rect));
            dy = fl (fl (clientY - snd (lastMouse s))
                     * fl (box_h (viewBox s) / rect_height rect))
        in s\<lparr> lastMouse := (clientX, clientY),
               viewBox := (viewBox s)\<lparr> box_x := fl (box_x (viewBox s) - dx),
                                         box_y := fl (box_y (viewBox s) - dy) \<rparr> \<rparr>)"

definition handleMouseUp :: "Interaction \<Rightarrow> Interaction" where
  "handleMouseUp s = s\<lparr> isPanning := False \<rparr>"

definition resetView :: "Interaction \<Rightarrow> Interaction" where
  "resetView s =
     s\<lparr> viewBox := \<lparr> box_x = 0, box_y = 0, box_w = VBOX_W, box_h = VBOX_H \<rparr>,
        selectedNode := None \<rparr>"

text \<open>The \<open>onClick\<close> of the svg element: a click on the background clears the selection.\<close>

definition svgClick :: "string \<Rightarrow> Interaction \<Rightarrow> Interaction" where
  "svgClick tag s = (if tag = ''svg'' \<or> tag = ''rect'' then s\<lparr> selectedNode := None \<rparr> else s)"

text \<open>
  \<open>handleNodeClick\<close>: with a timer pending for the node the click cancels it and navigates;
  otherwise it schedules the 300 ms callback and records its handle.
\<close>

definition handleNodeClick :: "string \<Rightarrow> Interaction \<Rightarrow> Interaction" where
  "handleNodeClick nodeId s =
     (case clickTimeouts s nodeId of
        Some existing \<Rightarrow>
          s\<lparr> timers := (timers s)(existing := None),
             clickTimeouts := (clickTimeouts s)(nodeId := None),
             navigations := navigations s @ [''/entity/'' @ nodeId] \<rparr>
      | None \<Rightarrow>
          (let timeout = nextTimer s
           in s\<lparr> timers := (timers s)(timeout \<mapsto> nodeId),
                  nextTimer := timeout + 1,
                  clickTimeouts := (clickTimeouts s)(nodeId \<mapsto> timeout) \<rparr>))"

text \<open>
  The scheduled callback runs when its 300 ms have elapsed, unless \<open>clearTimeout\<close> removed
  it first: it forgets the handle and toggles the selection.
\<close>

definition timerFires :: "nat \<Rightarrow> Interaction \<Rightarrow> Interaction" where
  "timerFires handle s =
     (case timers s handle of
        None \<Rightarrow> s
      | Some nodeId \<Rightarrow>
          s\<lparr> timers := (timers s)(handle := None),
             clickTimeouts := (clickTimeouts s)(nodeId := None),
             selectedNode := (if selectedNode s = Some nodeId then None else Some nodeId) \<rparr>)"

text \<open>
  The events of the browser. A wheel event reaches \<open>handleWheel\<close> only through the listener
  of the wheel effect; the mouse and click handlers are props of the rendered elements.
\<close>

datatype event =
    NodeClick string
  | TimerFires nat
  | Wheel real real real Rect
  | MouseDown nat string real real
  | MouseMove real real Rect
  | MouseUp
  | ResetView
  | SvgClick string

fun step :: "(real \<Rightarrow> real) \<Rightarrow> Interaction \<Rightarrow> event \<Rightarrow> Interaction" where
  "step fl s (NodeClick nodeId) = handleNodeClick nodeId s"
| "step fl s (TimerFires handle) = timerFires handle s"
| "step fl s (Wheel clientX clientY deltaY rect) =
     (if wheelListener s then handleWheel fl clientX clientY deltaY rect s else s)"
| "step fl s (MouseDown button tag clientX clientY) =
     handleMouseDown button tag clientX clientY s"
| "step fl s (MouseMove clientX clientY rect) = handleMouseMove fl clientX clientY rect s"
| "step fl s MouseUp = handleMouseUp s"
| "step fl s ResetView = resetView s"
| "step fl s (SvgClick tag) = svgClick tag s"

definition run :: "(real \<Rightarrow> real) \<Rightarrow> Interaction \<Rightarrow> event list \<Rightarrow> Interaction" where
  "run fl s evs = foldl (step fl) s evs"

text \<open>The viewport invariant: aspect ratio 5 : 3 and both extents within their clamps.\<close>

definition viewBox_ok :: "ViewBox \<Rightarrow> bool" where
  "viewBox_ok vb =
     (box_h vb = (3 / 5) * box_w vb \<and> 200 \<le> box_w vb \<and> box_w vb \<le> 4000
      \<and> 120 \<le> box_h vb \<and> box_h vb \<le> 2400)"

text \<open>
  Timer bookkeeping of the click handler: a scheduled callback and the handle stored for its
  node agree, and handles not yet handed out are unused.
\<close>

definition timers_ok :: "Interaction \<Rightarrow> bool" where
  "timers_ok s =
     ((\<forall>h n. (timers s h = Some n) = (clickTimeouts s n = Some h))
      \<and> (\<forall>h. nextTimer s \<le> h \<longrightarrow> timers s h = None))"

section \<open>Incremental loader: discarding superseded responses\<close>

text \<open>
  The fetch effect of \<open>NetworkGraph\<close>. Every run of the effect body is one request
  generation with its own closure variable \<open>cancelled\<close>; \<open>cancelled\<close> maps a generation to
  that variable, \<open>mounted\<close> is the generation whose cleanup React runs before the next body,
  \<open>issued\<close> counts the runs. The responses of the gateway are parameters of the events.
\<close>

record GraphFetch =
  rawCoMentions :: "CoMention list"
  rawEntities :: "EntityMentionCount list"
  loading :: bool
  cancelled :: "nat \<rightharpoonup> bool"
  mounted :: "nat option"
  issued :: nat

text \<open>
  A change of \<open>debouncedMinCo\<close>: the cleanup of the previous run sets its \<open>cancelled\<close>, then
  the body declares a fresh \<open>cancelled = false\<close>, sets \<open>loading\<close> and starts the requests.
\<close>

definition effectRun :: "GraphFetch \<Rightarrow> GraphFetch" where
  "effectRun s =
     (let g = issued s;
          cleaned = (case mounted s of Some p \<Rightarrow> (cancelled s)(p \<mapsto> True)
                                      | None \<Rightarrow> cancelled s)
      in s\<lparr> cancelled := cleaned(g \<mapsto> False), mounted := Some g, issued := g + 1,
             loading := True \<rparr>)"

text \<open>\<open>Promise.all\<close> of generation \<open>g\<close> fulfils: the \<open>then\<close> handler, then \<open>finally\<close>.\<close>

definition effectResolved ::
  "nat \<Rightarrow> CoMention list \<times> EntityMentionCount list \<Rightarrow> GraphFetch \<Rightarrow> GraphFetch" where
  "effectResolved g response s =
     (case cancelled s g of
        Some False \<Rightarrow> s\<lparr> rawCoMentions := fst response, rawEntities := snd response,
                          loading := False \<rparr>
      | _ \<Rightarrow> s)"

text \<open>\<open>Promise.all\<close> of generation \<open>g\<close> rejects: \<open>catch\<close> logs, then \<open>finally\<close>.\<close>

definition effectRejected :: "nat \<Rightarrow> GraphFetch \<Rightarrow> GraphFetch" where
  "effectRejected g s =
     (case cancelled s g of Some False \<Rightarrow> s\<lparr> loading := False \<rparr> | _ \<Rightarrow> s)"

text \<open>
  The histories of the effect: it runs (on mount and on every change of \<open>debouncedMinCo\<close>),
  and the requests of earlier runs settle in any order. The component starts with empty data
  and \<open>loading = true\<close>.
\<close>

datatype fetch_event =
    EffectRun
  | Resolved nat "CoMention list \<times> EntityMentionCount list"
  | Rejected nat

fun fetch_step :: "GraphFetch \<Rightarrow> fetch_event \<Rightarrow> GraphFetch" where
  "fetch_step s EffectRun = effectRun s"
| "fetch_step s (Resolved g response) = effectResolved g response s"
| "fetch_step s (Rejected g) = effectRejected g s"

definition fetch_run :: "GraphFetch \<Rightarrow> fetch_event list \<Rightarrow> GraphFetch" where
  "fetch_run s evs = foldl fetch_step s evs"

definition initialGraphFetch :: GraphFetch where
  "initialGraphFetch =
     \<lparr> rawCoMentions = [], rawEntities = [], loading = True, cancelled = Map.empty,
       mounted = None, issued = 0 \<rparr>"

text \<open>
  Bookkeeping invariant of the effect: only the mounted generation can have its
  \<open>cancelled\<close> flag still false, and the mounted generation has been issued.
\<close>

definition fetch_ok :: "GraphFetch \<Rightarrow> bool" where
  "fetch_ok s =
     ((\<forall>g. cancelled s g = Some False \<longrightarrow> mounted s = Some g)
      \<and> (\<forall>g. issued s \<le> g \<longrightarrow> mounted s \<noteq> Some g))"

text \<open>
  \<open>fetchData\<close> of \<open>NameMentionChart\<close>: the request is tagged with the incremented
  \<open>filterVersionRef\<close>, and its continuation compares the tag with the current value.
\<close>

record ChartFetch =
  entities :: "EntityMentionCount list"
  totalCount :: nat
  hasMore :: bool
  loading_chart :: bool
  filterVersionRef :: nat

text \<open>The part of \<open>fetchData\<close> before the \<open>await\<close>; returns the tag \<open>v\<close> with the state.\<close>

definition fetchData_begin :: "ChartFetch \<Rightarrow> nat \<times> ChartFetch" where
  "fetchData_begin s =
     (let v = filterVersionRef s + 1
      in (v, s\<lparr> filterVersionRef := v, loading_chart := True, hasMore := True \<rparr>))"

text \<open>The continuation after the \<open>await\<close> when the request fulfils, with its \<open>finally\<close>.\<close>

definition fetchData_resolved ::
  "nat \<Rightarrow> EntityMentionCount list \<times> nat \<Rightarrow> ChartFetch \<Rightarrow> ChartFetch" where
  "fetchData_resolved v response s =
     (if filterVersionRef s \<noteq> v then s
      else s\<lparr> entities := fst response, totalCount := snd response,
              hasMore := (length (fst response) < snd response),
              loading_chart := False \<rparr>)"

text \<open>The \<open>catch\<close> and \<open>finally\<close> blocks when the request fails.\<close>

definition fetchData_rejected :: "nat \<Rightarrow> ChartFetch \<Rightarrow> ChartFetch" where
  "fetchData_rejected v s =
     (if filterVersionRef s = v then s\<lparr> loading_chart := False \<rparr> else s)"

section \<open>On-demand detail cache\<close>

record SectionBreakdown =
  section_label :: string
  mention_count :: nat

text \<open>
  \<open>breakdownCacheRef\<close> and \<open>pendingRef\<close> of \<open>NameMentionChart\<close>, together with the calls
  of \<open>getEntitySectionBreakdown\<close> that are under way (\<open>inflight\<close>, each with the code path
  that issued it) and the log of every call issued (\<open>fetched\<close>). The tooltip and the
  re-render counter \<open>breakdownVersion\<close> do not feed back into the cache and are left out.
\<close>

datatype origin = VisibleWindow | RowHover

record DetailCache =
  breakdownCache :: "string \<rightharpoonup> SectionBreakdown list"
  pendingRef :: "string set"
  inflight :: "(string \<times> origin) list"
  fetched :: "string list"

definition emptyDetailCache :: DetailCache where
  "emptyDetailCache =
     \<lparr> breakdownCache = Map.empty, pendingRef = {}, inflight = [], fetched = [] \<rparr>"

text \<open>The effect on \<open>debouncedVisibleIds\<close>: filter, mark all pending, then fetch all.\<close>

definition visibleIdsEffect :: "string list \<Rightarrow> DetailCache \<Rightarrow> DetailCache" where
  "visibleIdsEffect debouncedVisibleIds s =
     (if length debouncedVisibleIds = 0 then s
      else
        let uncached = filter (\<lambda>i. breakdownCache s i = None \<and> i \<notin> pendingRef s)
                         debouncedVisibleIds
        in if length uncached = 0 then s
           else s\<lparr> pendingRef := pendingRef s \<union> set uncached,
                    inflight := inflight s @ map (\<lambda>i. (i, VisibleWindow)) uncached,
                    fetched := fetched s @ uncached \<rparr>)"

text \<open>The on-demand fetch of \<open>handleRowMouseEnter\<close>.\<close>

definition handleRowMouseEnter :: "string \<Rightarrow> DetailCache \<Rightarrow> DetailCache" where
  "handleRowMouseEnter entityId s =
     (if breakdownCache s entityId = None \<and> entityId \<notin> pendingRef s
      then s\<lparr> pendingRef := insert entityId (pendingRef s),
               inflight := inflight s @ [(entityId, RowHover)],
               fetched := fetched s @ [entityId] \<rparr>
      else s)"

definition removeAt :: "nat \<Rightarrow> 'a list \<Rightarrow> 'a list" where
  "removeAt k xs = take k xs @ drop (Suc k) xs"

text \<open>
  The \<open>k\<close>-th call under way fulfils with \<open>data\<close>. Visible-window path: \<open>then\<close> stores the
  data, \<open>finally\<close> deletes the pending mark. Hover path: \<open>then\<close> does both.
\<close>

definition fetchSucceeds :: "nat \<Rightarrow> SectionBreakdown list \<Rightarrow> DetailCache \<Rightarrow> DetailCache" where
  "fetchSucceeds k data s =
     (if k < length (inflight s) then
        (case inflight s ! k of
           (i, VisibleWindow) \<Rightarrow>
             s\<lparr> breakdownCache := (breakdownCache s)(i \<mapsto> data),
                pendingRef := pendingRef s - {i},
                inflight := removeAt k (inflight s) \<rparr>
         | (i, RowHover) \<Rightarrow>
             s\<lparr> breakdownCache := (breakdownCache s)(i \<mapsto> data),
                pendingRef := pendingRef s - {i},
                inflight := removeAt k (inflight s) \<rparr>)
      else s)"

text \<open>
  The \<open>k\<close>-th call under way rejects. Visible-window path: \<open>then\<close> is skipped and
  \<open>finally\<close> deletes the pending mark. Hover path: \<open>catch\<close> deletes it.
\<close>

definition fetchFails :: "nat \<Rightarrow> DetailCache \<Rightarrow> DetailCache" where
  "fetchFails k s =
     (if k < length (inflight s) then
        (case inflight s ! k of
           (i, VisibleWindow) \<Rightarrow>
             s\<lparr> pendingRef := pendingRef s - {i}, inflight := removeAt k (inflight s) \<rparr>
         | (i, RowHover) \<Rightarrow>
             s\<lparr> pendingRef := pendingRef s - {i}, inflight := removeAt k (inflight s) \<rparr>)
      else s)"

section \<open>Auxiliary notions and sample inputs\<close>

text \<open>
  An identifier qualifies when the entity map holds a row for it whose mention count reaches
  the threshold: the test the collecting loop applies to each endpoint.
\<close>

definition qualifies :: "(string \<rightharpoonup> EntityMentionCount) \<Rightarrow> nat \<Rightarrow> string \<Rightarrow> bool" where
  "qualifies em m i = (case em i of Some e \<Rightarrow> total_mentions e \<ge> m | None \<Rightarrow> False)"

text \<open>The entities and pairs of the specification's end-to-end example, and a reversed pair.\<close>

definition entA :: EntityMentionCount where
  "entA = \<lparr> entity_id = ''A'', canonical_name = ''A'', total_mentions = 100, sections = None \<rparr>"

definition entB :: EntityMentionCount where
  "entB = \<lparr> entity_id = ''B'', canonical_name = ''B'', total_mentions = 50, sections = None \<rparr>"

definition entC :: EntityMentionCount where
  "entC = \<lparr> entity_id = ''C'', canonical_name = ''C'', total_mentions = 5, sections = None \<rparr>"

definition pairAB :: CoMention where
  "pairAB = \<lparr> entity_a_id = ''A'', entity_a_name = ''A'', entity_b_id = ''B'',
              entity_b_name = ''B'', co_occurrence_count = 10, shared_documents = 8 \<rparr>"

definition pairBA :: CoMention where
  "pairBA = \<lparr> entity_a_id = ''B'', entity_a_name = ''B'', entity_b_id = ''A'',
              entity_b_name = ''A'', co_occurrence_count = 10, shared_documents = 8 \<rparr>"

definition pairBC :: CoMention where
  "pairBC = \<lparr> entity_a_id = ''B'', entity_a_name = ''B'', entity_b_id = ''C'',
              entity_b_name = ''C'', co_occurrence_count = 1, shared_documents = 1 \<rparr>"

section \<open>Graph builder: what the build computes\<close>

lemma set_set_add: "set (set_add s v) = insert v (set s)"
  by (auto simp: set_add_def)

lemma distinct_set_add: "distinct s \<Longrightarrow> distinct (set_add s v)"
  by (simp add: set_add_def)

lemma set_collectStep:
  "set (collectStep em m acc cm) =
     set acc \<union> {i. (i = entity_a_id cm \<or> i = entity_b_id cm) \<and> qualifies em m i}"
  by (auto simp: collectStep_def Let_def set_set_add qualifies_def split: option.splits if_splits)

lemma distinct_collectStep: "distinct acc \<Longrightarrow> distinct (collectStep em m acc cm)"
  by (simp add: collectStep_def Let_def distinct_set_add split: option.splits)

lemma set_foldl_collectStep:
  "set (foldl (collectStep em m) acc cms) =
     set acc \<union> {i. \<exists>cm \<in> set cms. (i = entity_a_id cm \<or> i = entity_b_id cm) \<and> qualifies em m i}"
proof (induction cms arbitrary: acc)
  case Nil
  then show ?case by simp
next
  case (Cons cm cms)
  show ?case
    unfolding foldl_Cons Cons.IH set_collectStep by auto
qed

lemma distinct_foldl_collectStep:
  "distinct acc \<Longrightarrow> distinct (foldl (collectStep em m) acc cms)"
  by (induction cms arbitrary: acc) (simp_all add: distinct_collectStep)

lemma set_collectNodeIds:
  "set (collectNodeIds em cms m) =
     {i. \<exists>cm \<in> set cms. (i = entity_a_id cm \<or> i = entity_b_id cm) \<and> qualifies em m i}"
  by (simp add: collectNodeIds_def set_foldl_collectStep)

lemma distinct_collectNodeIds: "distinct (collectNodeIds em cms m)"
  by (simp add: collectNodeIds_def distinct_foldl_collectStep)

lemma collectNodeIds_in_dom: "i \<in> set (collectNodeIds em cms m) \<Longrightarrow> em i \<noteq> None"
  by (auto simp: set_collectNodeIds qualifies_def split: option.splits)

lemma ids_buildNodes:
  "\<forall>i \<in> set ids. em i \<noteq> None \<Longrightarrow> map id_node (buildNodes em L sz ids idx) = ids"
  by (induction ids arbitrary: idx) (auto simp: Let_def)

lemma mentions_buildNodes:
  "\<forall>i \<in> set ids. em i \<noteq> None \<Longrightarrow>
     map mentions (buildNodes em L sz ids idx) =
     map (\<lambda>i. case em i of Some e \<Rightarrow> total_mentions e | None \<Rightarrow> 0) ids"
  by (induction ids arbitrary: idx) (auto simp: Let_def)

lemma radius_buildNodes:
  "n \<in> set (buildNodes em L sz ids idx) \<Longrightarrow>
     radius n = 5 + (log 2 (real (mentions n) + 1) / L) * 18"
  by (induction ids arbitrary: idx) (auto simp: Let_def add.commute split: option.splits)

lemma snapshotMax_ge1: "1 \<le> snapshotMax ns"
  unfolding snapshotMax_def by (induction ns) auto

lemma nodes_buildGraph_cases:
  "nodes (buildGraph ents cms m) = [] \<and> links (buildGraph ents cms m) = [] \<or>
   (let em = mkEntityMap ents; ids = collectNodeIds em cms m
    in nodes (buildGraph ents cms m) =
         buildNodes em (log 2 (real (maxMentionsOf em ids + 1))) (length ids) ids 0
       \<and> links (buildGraph ents cms m) = buildLinks ids cms)"
  by (simp add: buildGraph_def Let_def)

text \<open>
  The node set the code builds: the identifiers that qualify and are named by some pair of the
  raw input, whether or not that pair becomes an edge.
\<close>

lemma node_ids_buildGraph:
  "set (map id_node (nodes (buildGraph ents cms m))) =
     {i. \<exists>cm \<in> set cms. (i = entity_a_id cm \<or> i = entity_b_id cm)
                            \<and> qualifies (mkEntityMap ents) m i}"
proof (cases "ents = []")
  case True
  then show ?thesis
    by (simp add: buildGraph_def mkEntityMap_def qualifies_def)
next
  case False
  define em where "em = mkEntityMap ents"
  define ids where "ids = collectNodeIds em cms m"
  define built where
    "built = buildNodes em (log 2 (real (maxMentionsOf em ids + 1))) (length ids) ids 0"
  have dom: "\<forall>i \<in> set ids. em i \<noteq> None"
    unfolding ids_def using collectNodeIds_in_dom by blast
  have bi: "map id_node built = ids"
    unfolding built_def by (rule ids_buildNodes[OF dom])
  have "nodes (buildGraph ents cms m) = (if length built = 0 then [] else built)"
    using False by (simp add: buildGraph_def Let_def em_def ids_def built_def)
  then have "map id_node (nodes (buildGraph ents cms m)) = ids"
    using bi by auto
  then show ?thesis
    by (simp add: ids_def em_def set_collectNodeIds)
qed

text \<open>With no entity rows or no input pairs the build is empty.\<close>

lemma buildGraph_no_input:
  "buildGraph [] cms m = \<lparr> nodes = [], links = [] \<rparr>"
  "buildGraph ents [] m = \<lparr> nodes = [], links = [] \<rparr>"
  by (simp_all add: buildGraph_def collectNodeIds_def Let_def)

lemma linkKey_mkLink: "linkKey (mkLink cm) = pairKey cm"
  by (simp add: linkKey_def mkLink_def pairKey_def)

lemma distinct_keys_buildLinks:
  assumes "distinct (map pairKey cms)"
  shows "distinct (map linkKey (buildLinks ids cms))"
proof -
  let ?kept = "filter (\<lambda>cm. entity_a_id cm \<in> set ids \<and> entity_b_id cm \<in> set ids) cms"
  have "map linkKey (buildLinks ids cms) = take 500 (map pairKey ?kept)"
    by (simp add: buildLinks_def linkKey_mkLink take_map o_def)
  moreover have "distinct (map pairKey ?kept)"
    using assms by (rule distinct_map_filter)
  ultimately show ?thesis by simp
qed

section \<open>Graph builder: the claims\<close>

text \<open>
  Claim C1 (node admission: a node is built if and only if it reaches \<open>minMentions\<close> and is an
  endpoint of a pair that survives into the edge set, so no built node has zero edges).
  The collecting loop tests each endpoint on its own, although its comment says that both ends
  must meet \<open>minMentions\<close>. With the entities A (100), B (50), C (5), the single pair B-C and
  \<open>minMentions = 10\<close>, B is admitted through a pair whose other end fails the threshold: the
  built graph has the node B and no edge at all.
\<close>

theorem node_admitted_without_edge:
  "map id_node (nodes (buildGraph [entA, entB, entC] [pairBC] 10)) = [''B'']
   \<and> links (buildGraph [entA, entB, entC] [pairBC] 10) = []"
  by (simp add: buildGraph_def collectNodeIds_def collectStep_def mkEntityMap_def set_add_def
      buildLinks_def Let_def entA_def entB_def entC_def pairBC_def)

text \<open>
  Claim C2 (radius): every built node has radius
  \<open>5 + (log2 (mentions + 1) / log2 (maxMentions + 1)) * 18\<close>, where \<open>maxMentions\<close> is the
  largest mention count among the nodes of the snapshot, floored at 1; and of two nodes of one
  snapshot the one with more mentions has a radius at least as large. Numbers are exact reals.
\<close>

theorem radius_formula_and_monotonicity:
  assumes a: "a \<in> set (nodes (buildGraph ents cms m))"
      and b: "b \<in> set (nodes (buildGraph ents cms m))"
  shows "radius a = 5 + (log 2 (real (mentions a) + 1)
                          / log 2 (real (snapshotMax (nodes (buildGraph ents cms m))) + 1)) * 18
       \<and> (mentions a > mentions b \<longrightarrow> radius a \<ge> radius b)"
proof -
  define em where "em = mkEntityMap ents"
  define ids where "ids = collectNodeIds em cms m"
  define L where "L = log 2 (real (maxMentionsOf em ids + 1))"
  let ?g = "buildGraph ents cms m"
  from a nodes_buildGraph_cases[of ents cms m]
  have n: "nodes ?g = buildNodes em L (length ids) ids 0"
    by (auto simp: Let_def em_def ids_def L_def)
  have dom: "\<forall>i \<in> set ids. em i \<noteq> None"
    unfolding ids_def using collectNodeIds_in_dom by blast
  have mx: "snapshotMax (nodes ?g) = maxMentionsOf em ids"
    unfolding n snapshotMax_def maxMentionsOf_def mentions_buildNodes[OF dom] ..
  have Leq: "L = log 2 (real (snapshotMax (nodes ?g)) + 1)"
    unfolding L_def mx by (simp add: add.commute)
  have "2 \<le> real (snapshotMax (nodes ?g)) + 1"
    using snapshotMax_ge1[of "nodes ?g"] by simp
  then have "log 2 2 \<le> L" unfolding Leq by (subst log_le_cancel_iff) simp_all
  then have Lpos: "0 < L" by simp
  have ra: "radius a = 5 + (log 2 (real (mentions a) + 1) / L) * 18"
    using a unfolding n by (rule radius_buildNodes)
  have rb: "radius b = 5 + (log 2 (real (mentions b) + 1) / L) * 18"
    using b unfolding n by (rule radius_buildNodes)
  have mono: "radius b \<le> radius a" if "mentions b < mentions a"
  proof -
    from that have "log 2 (real (mentions b) + 1) \<le> log 2 (real (mentions a) + 1)"
      by (subst log_le_cancel_iff) simp_all
    then have "log 2 (real (mentions b) + 1) / L \<le> log 2 (real (mentions a) + 1) / L"
      using Lpos by (simp add: divide_right_mono)
    then have "(log 2 (real (mentions b) + 1) / L) * 18
               \<le> (log 2 (real (mentions a) + 1) / L) * 18"
      by (rule mult_right_mono) simp
    then show ?thesis unfolding ra rb by (rule add_left_mono)
  qed
  show ?thesis using ra mono unfolding Leq by blast
qed

text \<open>
  Claim C2, at the sample input: the nodes A (100 mentions) and B (50 mentions) are built, and
  the radius of A is at least that of B.
\<close>

theorem radius_formula_and_monotonicity_witness:
  "mentions (nodes (buildGraph [entA, entB, entC] [pairAB] 10) ! 1)
     < mentions (nodes (buildGraph [entA, entB, entC] [pairAB] 10) ! 0)
   \<and> radius (nodes (buildGraph [entA, entB, entC] [pairAB] 10) ! 1)
     \<le> radius (nodes (buildGraph [entA, entB, entC] [pairAB] 10) ! 0)"
proof -
  let ?g = "buildGraph [entA, entB, entC] [pairAB] 10"
  have ids: "map id_node (nodes ?g) = [''A'', ''B'']"
    by (simp add: buildGraph_def collectNodeIds_def collectStep_def mkEntityMap_def set_add_def
        Let_def entA_def entB_def entC_def pairAB_def)
  then have "length (map id_node (nodes ?g)) = 2" by simp
  then have len: "length (nodes ?g) = 2" by simp
  have m: "map mentions (nodes ?g) = [100, 50]"
    by (simp add: buildGraph_def collectNodeIds_def collectStep_def mkEntityMap_def set_add_def
        Let_def entA_def entB_def entC_def pairAB_def)
  have m0: "mentions (nodes ?g ! 0) = 100"
    using m len by (metis nth_map nth_Cons_0 zero_less_numeral)
  have m1: "mentions (nodes ?g ! 1) = 50"
    using m len by (metis nth_map nth_Cons_0 nth_Cons_Suc One_nat_def one_less_numeral_iff
        semiring_norm(76))
  have a: "nodes ?g ! 0 \<in> set (nodes ?g)" using len by simp
  have b: "nodes ?g ! 1 \<in> set (nodes ?g)" using len by simp
  show ?thesis
    using radius_formula_and_monotonicity[OF a b] m0 m1 by simp
qed

text \<open>
  Claim C3 (no dangling edges): both the source and the target identifier of every built edge
  belong to a built node.
\<close>

theorem no_dangling_edges:
  assumes "l \<in> set (links (buildGraph ents cms m))"
  shows "sourceId l \<in> set (map id_node (nodes (buildGraph ents cms m)))
       \<and> targetId l \<in> set (map id_node (nodes (buildGraph ents cms m)))"
proof -
  define em where "em = mkEntityMap ents"
  define ids where "ids = collectNodeIds em cms m"
  from assms nodes_buildGraph_cases[of ents cms m]
  have n: "nodes (buildGraph ents cms m) =
         buildNodes em (log 2 (real (maxMentionsOf em ids + 1))) (length ids) ids 0"
    and k: "links (buildGraph ents cms m) = buildLinks ids cms"
    by (auto simp: Let_def em_def ids_def)
  have dom: "\<forall>i \<in> set ids. em i \<noteq> None"
    unfolding ids_def using collectNodeIds_in_dom by blast
  have "map id_node (nodes (buildGraph ents cms m)) = ids"
    unfolding n by (rule ids_buildNodes[OF dom])
  moreover from assms have "sourceId l \<in> set ids \<and> targetId l \<in> set ids"
    unfolding k buildLinks_def mkLink_def by (auto dest: in_set_takeD)
  ultimately show ?thesis by simp
qed

text \<open>
  Claim C3, at the sample input: the edge A-B is built and both its ends are built nodes.
\<close>

theorem no_dangling_edges_witness:
  "mkLink pairAB \<in> set (links (buildGraph [entA, entB, entC] [pairAB] 10))
   \<and> sourceId (mkLink pairAB) \<in> set (map id_node (nodes (buildGraph [entA, entB, entC] [pairAB] 10)))
   \<and> targetId (mkLink pairAB) \<in> set (map id_node (nodes (buildGraph [entA, entB, entC] [pairAB] 10)))"
proof -
  have h: "mkLink pairAB \<in> set (links (buildGraph [entA, entB, entC] [pairAB] 10))"
    by (simp add: buildGraph_def collectNodeIds_def collectStep_def mkEntityMap_def set_add_def
        buildLinks_def Let_def entA_def entB_def entC_def pairAB_def)
  show ?thesis using h no_dangling_edges[OF h] by simp
qed

text \<open>
  Claim C4 (symmetry dedup), as the code has it. The build merges nothing: the built edge list
  is, in input order, the first 500 input pairs whose two ends are both built nodes, each edge
  carrying the identifiers and counts of its own pair. Hence a pair and its reversal give two
  edges; and when the raw input names every unordered pair at most once, so does the built
  edge list.
\<close>

theorem edges_are_admitted_pairs_in_order:
  "links (buildGraph ents cms m) =
     map (\<lambda>cm. \<lparr> source = entity_a_id cm, target = entity_b_id cm,
                  sourceId = entity_a_id cm, targetId = entity_b_id cm,
                  coOccurrences = co_occurrence_count cm,
                  sharedDocs = shared_documents cm \<rparr>)
       (take 500
          (filter (\<lambda>cm. entity_a_id cm \<in> set (map id_node (nodes (buildGraph ents cms m)))
                       \<and> entity_b_id cm \<in> set (map id_node (nodes (buildGraph ents cms m))))
             cms))
   \<and> (distinct (map pairKey cms)
        \<longrightarrow> distinct (map linkKey (links (buildGraph ents cms m))))"
proof -
  let ?g = "buildGraph ents cms m"
  define em where "em = mkEntityMap ents"
  define ids where "ids = collectNodeIds em cms m"
  define built where
    "built = buildNodes em (log 2 (real (maxMentionsOf em ids + 1))) (length ids) ids 0"
  have dom: "\<forall>i \<in> set ids. em i \<noteq> None"
    unfolding ids_def using collectNodeIds_in_dom by blast
  have bi: "map id_node built = ids"
    unfolding built_def by (rule ids_buildNodes[OF dom])
  have eq: "?g = (if length ents = 0 then \<lparr> nodes = [], links = [] \<rparr>
                  else if length built = 0 then \<lparr> nodes = [], links = [] \<rparr>
                  else \<lparr> nodes = built, links = buildLinks ids cms \<rparr>)"
    by (simp only: buildGraph_def Let_def built_def ids_def em_def)
  have cases: "(nodes ?g = [] \<and> links ?g = [] \<and> (ents = [] \<or> ids = []))
             \<or> (nodes ?g = built \<and> links ?g = buildLinks ids cms)"
  proof (cases "ents = [] \<or> built = []")
    case True
    moreover have "ids = []" if "built = []" using bi that by auto
    ultimately show ?thesis unfolding eq by auto
  next
    case False
    then show ?thesis unfolding eq by simp
  qed
  have first: "links ?g =
     map (\<lambda>cm. \<lparr> source = entity_a_id cm, target = entity_b_id cm,
                  sourceId = entity_a_id cm, targetId = entity_b_id cm,
                  coOccurrences = co_occurrence_count cm,
                  sharedDocs = shared_documents cm \<rparr>)
       (take 500
          (filter (\<lambda>cm. entity_a_id cm \<in> set (map id_node (nodes ?g))
                       \<and> entity_b_id cm \<in> set (map id_node (nodes ?g)))
             cms))"
    using cases
  proof
    assume "nodes ?g = [] \<and> links ?g = [] \<and> (ents = [] \<or> ids = [])"
    then show ?thesis by simp
  next
    assume h: "nodes ?g = built \<and> links ?g = buildLinks ids cms"
    then have "map id_node (nodes ?g) = ids" using bi by simp
    then show ?thesis using h by (simp add: buildLinks_def mkLink_def)
  qed
  have second: "distinct (map pairKey cms) \<longrightarrow> distinct (map linkKey (links ?g))"
  proof
    assume "distinct (map pairKey cms)"
    then have "distinct (map linkKey (buildLinks ids' cms))" for ids'
      by (rule distinct_keys_buildLinks)
    then show "distinct (map linkKey (links ?g))"
      by (simp add: buildGraph_def Let_def)
  qed
  show ?thesis using first second by (rule conjI)
qed

text \<open>
  Claim C4, at a sample input with \<open>minMentions = 5\<close>: the pairs A-B and B-C are different
  unordered pairs, all three entities are admitted, and the build returns the two edges A-B
  and B-C, in this order and pairwise different.
\<close>

theorem edges_are_admitted_pairs_in_order_witness:
  "distinct (map pairKey [pairAB, pairBC])
   \<and> links (buildGraph [entA, entB, entC] [pairAB, pairBC] 5) =
       [\<lparr> source = ''A'', target = ''B'', sourceId = ''A'', targetId = ''B'',
          coOccurrences = 10, sharedDocs = 8 \<rparr>,
        \<lparr> source = ''B'', target = ''C'', sourceId = ''B'', targetId = ''C'',
          coOccurrences = 1, sharedDocs = 1 \<rparr>]
   \<and> distinct (map linkKey (links (buildGraph [entA, entB, entC] [pairAB, pairBC] 5)))"
proof -
  let ?g = "buildGraph [entA, entB, entC] [pairAB, pairBC] 5"
  have h: "distinct (map pairKey [pairAB, pairBC])"
    by (simp add: pairKey_def pairAB_def pairBC_def doubleton_eq_iff)
  have n: "map id_node (nodes ?g) = [''A'', ''B'', ''C'']"
    by (simp add: buildGraph_def collectNodeIds_def collectStep_def mkEntityMap_def set_add_def
        Let_def entA_def entB_def entC_def pairAB_def pairBC_def)
  note t = edges_are_admitted_pairs_in_order[of "[entA, entB, entC]" "[pairAB, pairBC]" 5]
  have l: "links ?g =
       [\<lparr> source = ''A'', target = ''B'', sourceId = ''A'', targetId = ''B'',
          coOccurrences = 10, sharedDocs = 8 \<rparr>,
        \<lparr> source = ''B'', target = ''C'', sourceId = ''B'', targetId = ''C'',
          coOccurrences = 1, sharedDocs = 1 \<rparr>]"
    using t unfolding n by (simp add: pairAB_def pairBC_def)
  from t h have d: "distinct (map linkKey (links ?g))" by blast
  show ?thesis by (intro conjI h l d)
qed

text \<open>
  Claim C4 as stated fails: from the raw input holding the pair (A,B) and its reversal (B,A)
  the build produces two edges for the one unordered pair.
\<close>

theorem symmetric_duplicate_counterexample:
  "\<not> distinct (map linkKey (links (buildGraph [entA, entB] [pairAB, pairBA] 10)))"
  by (simp add: buildGraph_def collectNodeIds_def collectStep_def mkEntityMap_def set_add_def
      buildLinks_def Let_def entA_def entB_def pairAB_def pairBA_def linkKey_def mkLink_def
      insert_commute)

text \<open>
  Claim C5 (end-to-end example): for the entities A (100), B (50), C (5), the pairs A-B (10
  co-occurrences) and B-C (1), \<open>minMentions = 10\<close> and \<open>minCoOccurrences = 5\<close>, the pair filter
  followed by the build yields exactly the nodes A and B (with 100 and 50 mentions) and
  exactly one edge, from A to B with 10 co-occurrences and 8 shared documents. The build alone,
  on the unfiltered pairs, yields the same graph: C is below \<open>minMentions\<close>.
\<close>

theorem end_to_end_example:
  "map id_node (nodes (pipeline [entA, entB, entC] [pairAB, pairBC] 10 5)) = [''A'', ''B'']
   \<and> map mentions (nodes (pipeline [entA, entB, entC] [pairAB, pairBC] 10 5)) = [100, 50]
   \<and> links (pipeline [entA, entB, entC] [pairAB, pairBC] 10 5)
       = [\<lparr> source = ''A'', target = ''B'', sourceId = ''A'', targetId = ''B'',
            coOccurrences = 10, sharedDocs = 8 \<rparr>]
   \<and> map id_node (nodes (buildGraph [entA, entB, entC] [pairAB, pairBC] 10)) = [''A'', ''B'']
   \<and> links (buildGraph [entA, entB, entC] [pairAB, pairBC] 10)
       = [\<lparr> source = ''A'', target = ''B'', sourceId = ''A'', targetId = ''B'',
            coOccurrences = 10, sharedDocs = 8 \<rparr>]"
proof -
  have kept: "getCoMentions 5 500 [pairAB, pairBC] = [pairAB]"
    by (simp add: getCoMentions_def pairAB_def pairBC_def)
  have ids: "collectNodeIds (mkEntityMap [entA, entB, entC]) [pairAB] 10 = [''A'', ''B'']"
    by (simp add: collectNodeIds_def collectStep_def mkEntityMap_def set_add_def
        entA_def entB_def entC_def pairAB_def)
  have ids': "collectNodeIds (mkEntityMap [entA, entB, entC]) [pairAB, pairBC] 10
               = [''A'', ''B'']"
    by (simp add: collectNodeIds_def collectStep_def mkEntityMap_def set_add_def
        entA_def entB_def entC_def pairAB_def pairBC_def)
  have filtered: "map id_node (nodes (pipeline [entA, entB, entC] [pairAB, pairBC] 10 5))
                    = [''A'', ''B'']
      \<and> map mentions (nodes (pipeline [entA, entB, entC] [pairAB, pairBC] 10 5)) = [100, 50]
      \<and> links (pipeline [entA, entB, entC] [pairAB, pairBC] 10 5)
       = [\<lparr> source = ''A'', target = ''B'', sourceId = ''A'', targetId = ''B'',
            coOccurrences = 10, sharedDocs = 8 \<rparr>]"
    by (simp add: pipeline_def kept buildGraph_def ids Let_def buildLinks_def mkLink_def)
       (simp add: mkEntityMap_def entA_def entB_def entC_def pairAB_def)
  have unfiltered: "map id_node (nodes (buildGraph [entA, entB, entC] [pairAB, pairBC] 10))
                    = [''A'', ''B'']
      \<and> links (buildGraph [entA, entB, entC] [pairAB, pairBC] 10)
       = [\<lparr> source = ''A'', target = ''B'', sourceId = ''A'', targetId = ''B'',
            coOccurrences = 10, sharedDocs = 8 \<rparr>]"
    by (simp add: buildGraph_def ids' Let_def buildLinks_def mkLink_def)
       (simp add: mkEntityMap_def entA_def entB_def entC_def pairAB_def pairBC_def)
  show ?thesis using filtered unfiltered by simp
qed

text \<open>
  Claim C9 (degenerate input: an empty entity list, or no pair surviving the filtering, gives
  empty node and edge sets). With the entities B (50) and C (5), the single pair B-C and
  \<open>minMentions = 10\<close>, no pair survives into the edge list, yet the node B is returned: the
  collecting loop admitted it on its own, as under claim C1.
\<close>

theorem nodes_remain_when_no_pair_survives:
  "links (buildGraph [entB, entC] [pairBC] 10) = []
   \<and> length (nodes (buildGraph [entB, entC] [pairBC] 10)) = 1"
  by (simp add: buildGraph_def collectNodeIds_def collectStep_def mkEntityMap_def set_add_def
      buildLinks_def Let_def entB_def entC_def pairBC_def)

section \<open>Interaction layer: the claims\<close>

subsection \<open>Click timers\<close>

lemma timers_ok_init: "timers_ok initialInteraction"
  by (simp add: timers_ok_def initialInteraction_def)

lemma timers_ok_click: 
  assumes ok: "timers_ok s" shows "timers_ok (handleNodeClick n s)"
proof (cases "clickTimeouts s n")
  case None
  let ?t = "nextTimer s"
  from ok have inv: "\<And>h m. (timers s h = Some m) = (clickTimeouts s m = Some h)"
    and fresh: "\<And>h. ?t \<le> h \<Longrightarrow> timers s h = None"
    by (simp_all add: timers_ok_def)
  have ft: "timers s ?t = None" by (rule fresh) simp
  have nouse: "clickTimeouts s m \<noteq> Some ?t" for m
    using inv[of ?t m] ft by simp
  have non: "timers s h \<noteq> Some n" for h
    using inv[of h n] None by simp
  have eq: "handleNodeClick n s =
      s\<lparr> timers := (timers s)(?t \<mapsto> n), nextTimer := ?t + 1,
         clickTimeouts := (clickTimeouts s)(n \<mapsto> ?t) \<rparr>"
    using None by (simp add: handleNodeClick_def Let_def)
  have a: "(((timers s)(?t \<mapsto> n)) h = Some m) = (((clickTimeouts s)(n \<mapsto> ?t)) m = Some h)" for h m
  proof (cases "h = ?t")
    case True
    then show ?thesis using nouse[of m] by auto
  next
    case False
    then show ?thesis using non[of h] inv[of h m] by auto
  qed
  have b: "((timers s)(?t \<mapsto> n)) h = None" if "?t + 1 \<le> h" for h
    using that fresh[of h] by simp
  show ?thesis unfolding eq timers_ok_def using a b by simp
next
  case (Some t)
  from ok have inv: "\<And>h m. (timers s h = Some m) = (clickTimeouts s m = Some h)"
    and fresh: "\<And>h. nextTimer s \<le> h \<Longrightarrow> timers s h = None"
    by (simp_all add: timers_ok_def)
  have tt: "timers s t = Some n" using inv[of t n] Some by simp
  have eq: "handleNodeClick n s =
      s\<lparr> timers := (timers s)(t := None), clickTimeouts := (clickTimeouts s)(n := None),
         navigations := navigations s @ [''/entity/'' @ n] \<rparr>"
    using Some by (simp add: handleNodeClick_def)
  have a: "(((timers s)(t := None)) h = Some m) = (((clickTimeouts s)(n := None)) m = Some h)" for h m
  proof (cases "h = t")
    case True
    then show ?thesis using inv[of t m] tt by auto
  next
    case False
    then show ?thesis using inv[of h m] inv[of h n] Some by auto
  qed
  have b: "((timers s)(t := None)) h = None" if "nextTimer s \<le> h" for h
    using that fresh[of h] by simp
  show ?thesis unfolding eq timers_ok_def using a b by simp
qed

lemma timers_ok_fire:
  assumes ok: "timers_ok s" shows "timers_ok (timerFires t s)"
proof (cases "timers s t")
  case None
  then show ?thesis using ok by (simp add: timerFires_def)
next
  case (Some n)
  from ok have inv: "\<And>h m. (timers s h = Some m) = (clickTimeouts s m = Some h)"
    and fresh: "\<And>h. nextTimer s \<le> h \<Longrightarrow> timers s h = None"
    by (simp_all add: timers_ok_def)
  have cn: "clickTimeouts s n = Some t" using inv[of t n] Some by simp
  have eq: "timerFires t s =
      s\<lparr> timers := (timers s)(t := None), clickTimeouts := (clickTimeouts s)(n := None),
         selectedNode := (if selectedNode s = Some n then None else Some n) \<rparr>"
    using Some by (simp add: timerFires_def)
  have a: "(((timers s)(t := None)) h = Some m) = (((clickTimeouts s)(n := None)) m = Some h)" for h m
  proof (cases "h = t")
    case True
    then show ?thesis using inv[of t m] Some by auto
  next
    case False
    then show ?thesis using inv[of h m] inv[of h n] cn by auto
  qed
  have b: "((timers s)(t := None)) h = None" if "nextTimer s \<le> h" for h
    using that fresh[of h] by simp
  show ?thesis unfolding eq timers_ok_def using a b by simp
qed

lemma timers_ok_step: "timers_ok s \<Longrightarrow> timers_ok (step fl s ev)"
proof (cases ev)
  case (NodeClick n)
  assume "timers_ok s" then show ?thesis unfolding NodeClick by (simp add: timers_ok_click)
next
  case (TimerFires h)
  assume "timers_ok s" then show ?thesis unfolding TimerFires by (simp add: timers_ok_fire)
qed (simp_all add: timers_ok_def handleWheel_def handleMouseDown_def handleMouseMove_def
       handleMouseUp_def resetView_def svgClick_def Let_def)

lemma timers_ok_run: "timers_ok s \<Longrightarrow> timers_ok (run fl s evs)"
  unfolding run_def by (induction evs arbitrary: s) (simp_all add: timers_ok_step)

lemma pending_step:
  assumes ok: "timers_ok s" and p: "timers s h = Some n"
      and e1: "ev \<noteq> NodeClick n" and e2: "ev \<noteq> TimerFires h"
  shows "timers (step fl s ev) h = Some n"
proof (cases ev)
  case (NodeClick m)
  with e1 have mn: "m \<noteq> n" by simp
  show ?thesis
  proof (cases "clickTimeouts s m")
    case None
    have "nextTimer s \<noteq> h" using ok p unfolding timers_ok_def by force
    then show ?thesis unfolding NodeClick using None p
      by (simp add: handleNodeClick_def Let_def)
  next
    case (Some h')
    then have "timers s h' = Some m" using ok by (simp add: timers_ok_def)
    with p mn have "h' \<noteq> h" by auto
    then show ?thesis unfolding NodeClick using Some p
      by (simp add: handleNodeClick_def)
  qed
next
  case (TimerFires h')
  with e2 have "h' \<noteq> h" by simp
  then show ?thesis unfolding TimerFires using p
    by (simp add: timerFires_def split: option.splits)
qed (use p in \<open>simp_all add: handleWheel_def handleMouseDown_def handleMouseMove_def
       handleMouseUp_def resetView_def svgClick_def Let_def\<close>)

lemma pending_run:
  assumes "timers_ok s" "timers s h = Some n"
      and "NodeClick n \<notin> set evs" "TimerFires h \<notin> set evs"
  shows "timers (run fl s evs) h = Some n"
  using assms unfolding run_def
proof (induction evs arbitrary: s)
  case Nil
  then show ?case by simp
next
  case (Cons ev evs)
  have "timers_ok (step fl s ev)" using Cons.prems(1) by (rule timers_ok_step)
  moreover have "timers (step fl s ev) h = Some n"
    using Cons.prems by (intro pending_step) auto
  ultimately show ?case using Cons.IH Cons.prems by simp
qed

lemma click_first:
  assumes "clickTimeouts s n = None"
  shows "timers (handleNodeClick n s) (nextTimer s) = Some n"
    and "selectedNode (handleNodeClick n s) = selectedNode s"
    and "navigations (handleNodeClick n s) = navigations s"
  using assms by (simp_all add: handleNodeClick_def Let_def)

lemma fire_pending:
  assumes "timers s h = Some n"
  shows "selectedNode (timerFires h s) = (if selectedNode s = Some n then None else Some n)"
    and "navigations (timerFires h s) = navigations s"
  using assms by (simp_all add: timerFires_def)

lemma click_second:
  assumes "clickTimeouts s n = Some h"
  shows "navigations (handleNodeClick n s) = navigations s @ [''/entity/'' @ n]"
    and "selectedNode (handleNodeClick n s) = selectedNode s"
    and "timers (handleNodeClick n s) h = None"
    and "clickTimeouts (handleNodeClick n s) n = None"
  using assms by (simp_all add: handleNodeClick_def)

lemma fire_cancelled: "timers s h = None \<Longrightarrow> timerFires h s = s"
  by (simp add: timerFires_def)

text \<open>
  Claim C6 (click disambiguation), as the code has it. Time is abstracted to the order of
  events: "within the 300 ms window" means before the callback scheduled by the first click
  has run. From any reachable state with no timer pending for the node, the first click
  changes neither the selection nor the navigation log. While no second click on the node
  arrives (\<open>mid\<close> holds any other events), the callback stays scheduled; when it runs it
  toggles the selection (deselects the node if it is the selected one, selects it otherwise)
  and navigates nowhere. A second click before the callback has run adds exactly one
  navigation, leaves the selection as it is, and cancels the callback, which therefore never
  toggles anything: a gesture of one or two clicks never yields both a toggle and a navigation.
  After the second click no timer is pending for the node, so a further click is the first
  click of a new gesture.
\<close>

theorem click_disambiguation:
  assumes reach: "s = run fl initialInteraction evs"
      and idle: "clickTimeouts s n = None"
      and quiet: "NodeClick n \<notin> set mid" "TimerFires (nextTimer s) \<notin> set mid"
  shows "selectedNode (handleNodeClick n s) = selectedNode s
       \<and> navigations (handleNodeClick n s) = navigations s
       \<and> (let waiting = run fl (handleNodeClick n s) mid;
               single = timerFires (nextTimer s) waiting;
               double = handleNodeClick n waiting
          in selectedNode single
               = (if selectedNode waiting = Some n then None else Some n)
             \<and> navigations single = navigations waiting
             \<and> navigations double = navigations waiting @ [''/entity/'' @ n]
             \<and> selectedNode double = selectedNode waiting
             \<and> timerFires (nextTimer s) double = double
             \<and> clickTimeouts double n = None)"
proof -
  let ?h = "nextTimer s"
  let ?w = "run fl (handleNodeClick n s) mid"
  have ok: "timers_ok s" unfolding reach by (rule timers_ok_run[OF timers_ok_init])
  have ok1: "timers_ok (handleNodeClick n s)" using ok by (rule timers_ok_click)
  have p1: "timers (handleNodeClick n s) ?h = Some n" using idle by (rule click_first)
  have pw: "timers ?w ?h = Some n" using ok1 p1 quiet by (rule pending_run)
  have okw: "timers_ok ?w" using ok1 by (rule timers_ok_run)
  from pw okw have cw: "clickTimeouts ?w n = Some ?h" by (simp add: timers_ok_def)
  have "timerFires ?h (handleNodeClick n ?w) = handleNodeClick n ?w"
    using click_second(3)[OF cw] by (rule fire_cancelled)
  then show ?thesis
    using click_first(2,3)[OF idle] fire_pending[OF pw] click_second(1,2,4)[OF cw]
    by (simp add: Let_def)
qed

text \<open>
  Claim C6, from the initial state: one click on A and the timer select A without navigating;
  two clicks on A navigate once to its detail page, select nothing and leave no timer pending.
\<close>

theorem click_disambiguation_witness:
  "clickTimeouts initialInteraction ''A'' = None
   \<and> selectedNode (timerFires 1 (handleNodeClick ''A'' initialInteraction)) = Some ''A''
   \<and> navigations (timerFires 1 (handleNodeClick ''A'' initialInteraction)) = []
   \<and> navigations (handleNodeClick ''A'' (handleNodeClick ''A'' initialInteraction)) = [''/entity/A'']
   \<and> selectedNode (handleNodeClick ''A'' (handleNodeClick ''A'' initialInteraction)) = None
   \<and> clickTimeouts (handleNodeClick ''A'' (handleNodeClick ''A'' initialInteraction)) ''A''
       = None"
  using click_disambiguation[where s = initialInteraction and fl = id and evs = "[]"
      and n = "''A''" and mid = "[]"]
  by (simp add: run_def initialInteraction_def Let_def)

text \<open>
  Claim C6 as stated fails in its closing sentence, that a click sequence never produces both a
  selection toggle and a navigation. Three clicks on A in a row: the second cancels the timer
  of the first and navigates, the third finds no timer pending and schedules a new one (handle
  2), and when that one runs it selects A. The sequence has produced one navigation and one
  toggle.
\<close>

theorem triple_click_counterexample:
  "navigations (timerFires 2 (handleNodeClick ''A'' (handleNodeClick ''A''
       (handleNodeClick ''A'' initialInteraction)))) = [''/entity/A'']
   \<and> selectedNode (timerFires 2 (handleNodeClick ''A'' (handleNodeClick ''A''
       (handleNodeClick ''A'' initialInteraction)))) = Some ''A''
   \<and> selectedNode initialInteraction = None"
  by (simp add: handleNodeClick_def timerFires_def initialInteraction_def Let_def)

subsection \<open>Viewport\<close>

text \<open>After mounting no wheel listener is installed, and no handler installs one later.\<close>

lemma no_listener_init: "\<not> wheelListener initialInteraction"
  by (simp add: initialInteraction_def wheelEffect_def showsSkeleton_def)

lemma wheelListener_step: "wheelListener (step fl s ev) = wheelListener s"
  by (cases ev)
     (simp_all add: handleNodeClick_def timerFires_def handleWheel_def handleMouseDown_def
        handleMouseMove_def handleMouseUp_def resetView_def svgClick_def Let_def
        split: option.splits)


text \<open>Without the listener no event changes the extent of the viewBox.\<close>

lemma extent_step:
  assumes "\<not> wheelListener s"
  shows "box_w (viewBox (step fl s ev)) = box_w (viewBox s)
       \<and> box_h (viewBox (step fl s ev)) = box_h (viewBox s)
       \<or> box_w (viewBox (step fl s ev)) = 1000 \<and> box_h (viewBox (step fl s ev)) = 600"
  using assms
  by (cases ev)
     (simp_all add: handleNodeClick_def timerFires_def handleMouseDown_def
        handleMouseMove_def handleMouseUp_def resetView_def svgClick_def Let_def
        VBOX_W_def VBOX_H_def split: option.splits)

lemma extent_run:
  assumes "\<not> wheelListener s" "box_w (viewBox s) = 1000" "box_h (viewBox s) = 600"
  shows "box_w (viewBox (run fl s evs)) = 1000 \<and> box_h (viewBox (run fl s evs)) = 600"
  using assms unfolding run_def
proof (induction evs arbitrary: s)
  case Nil
  then show ?case by simp
next
  case (Cons ev evs)
  have "\<not> wheelListener (step fl s ev)" using Cons.prems(1) by (simp add: wheelListener_step)
  moreover have "box_w (viewBox (step fl s ev)) = 1000 \<and> box_h (viewBox (step fl s ev)) = 600"
    using extent_step[OF Cons.prems(1), of fl ev] Cons.prems(2,3) by auto
  ultimately show ?case using Cons.IH by simp
qed

text \<open>
  What holds of the viewport whatever the rounding: every reachable viewBox is 1000 by 600, so
  it has the aspect ratio and lies within the clamps; a pan keeps width and height; a reset
  restores the initial box; and the wheel handler, were it called, would return a width within
  200..4000 and a height within 120..2400.
\<close>

lemma viewport_reachable:
  "viewBox_ok (viewBox (run fl initialInteraction evs))"
  using extent_run[OF no_listener_init, of fl evs]
  by (simp add: viewBox_ok_def initialInteraction_def initialViewBox_def VBOX_W_def VBOX_H_def)

lemma pan_keeps_extent:
  "box_w (viewBox (handleMouseMove fl px py r s)) = box_w (viewBox s)
   \<and> box_h (viewBox (handleMouseMove fl px py r s)) = box_h (viewBox s)"
  by (simp add: handleMouseMove_def Let_def)

lemma reset_restores: "viewBox (resetView s) = initialViewBox"
  by (simp add: resetView_def initialViewBox_def)

lemma wheelZoom_bounds:
  "200 \<le> box_w (wheelZoom fl cx cy dy r vb) \<and> box_w (wheelZoom fl cx cy dy r vb) \<le> 4000
   \<and> 120 \<le> box_h (wheelZoom fl cx cy dy r vb) \<and> box_h (wheelZoom fl cx cy dy r vb) \<le> 2400"
  by (simp add: wheelZoom_def Let_def VBOX_W_def VBOX_H_def)


section \<open>Incremental loader: the claim\<close>

lemma fetch_ok_init: "fetch_ok initialGraphFetch"
  by (simp add: fetch_ok_def initialGraphFetch_def)

lemma fetch_ok_effectRun: "fetch_ok s \<Longrightarrow> fetch_ok (effectRun s)"
  by (auto simp: fetch_ok_def effectRun_def Let_def split: option.splits)

lemma fetch_ok_resolved: "fetch_ok s \<Longrightarrow> fetch_ok (effectResolved g r s)"
  by (auto simp: fetch_ok_def effectResolved_def split: option.splits bool.splits)

lemma fetch_ok_rejected: "fetch_ok s \<Longrightarrow> fetch_ok (effectRejected g s)"
  by (auto simp: fetch_ok_def effectRejected_def split: option.splits bool.splits)

lemma fetch_ok_step: "fetch_ok s \<Longrightarrow> fetch_ok (fetch_step s ev)"
  by (cases ev) (simp_all add: fetch_ok_effectRun fetch_ok_resolved fetch_ok_rejected)

lemma fetch_ok_run: "fetch_ok s \<Longrightarrow> fetch_ok (fetch_run s evs)"
  unfolding fetch_run_def by (induction evs arbitrary: s) (simp_all add: fetch_ok_step)

text \<open>A response of a generation that is no longer the mounted one changes nothing.\<close>

lemma superseded_ignored:
  assumes "fetch_ok s" "mounted s \<noteq> Some g"
  shows "effectResolved g r s = s" "effectRejected g s = s"
  using assms
  by (auto simp: fetch_ok_def effectResolved_def effectRejected_def
      split: option.splits bool.splits)

text \<open>
  Claim C7 (stale-response rejection). In both components: generation 1 is issued, then
  generation 2; generation 2 resolves, then generation 1. The stored data are those of
  generation 2 and the loading flag is off. For \<open>NetworkGraph\<close> the cleanup that runs when
  generation 2 is issued sets the \<open>cancelled\<close> flag of generation 1; for \<open>NameMentionChart\<close>
  the tag of generation 1 no longer equals \<open>filterVersionRef\<close>. More generally, after any
  history of the effect a response of a generation other than the mounted one leaves the state
  as it is, and so does a \<open>fetchData\<close> response whose tag is not the current version.
\<close>

theorem stale_response_rejected:
  "(let s1 = effectRun s; g1 = issued s;
        s2 = effectRun s1; g2 = issued s1;
        s3 = effectResolved g2 r2 s2;
        s4 = effectResolved g1 r1 s3
    in g1 < g2 \<and> rawCoMentions s4 = fst r2 \<and> rawEntities s4 = snd r2 \<and> loading s4 = False)
   \<and> (let (v1, c1) = fetchData_begin c;
           (v2, c2) = fetchData_begin c1;
           c3 = fetchData_resolved v2 d2 c2;
           c4 = fetchData_resolved v1 d1 c3
       in v1 < v2 \<and> entities c4 = fst d2 \<and> totalCount c4 = snd d2
          \<and> loading_chart c4 = False)
   \<and> (mounted (fetch_run initialGraphFetch evs) \<noteq> Some g
        \<longrightarrow> effectResolved g r (fetch_run initialGraphFetch evs)
              = fetch_run initialGraphFetch evs)
   \<and> (filterVersionRef c \<noteq> v \<longrightarrow> fetchData_resolved v d c = c)"
proof -
  have a: "(let s1 = effectRun s; g1 = issued s;
        s2 = effectRun s1; g2 = issued s1;
        s3 = effectResolved g2 r2 s2;
        s4 = effectResolved g1 r1 s3
    in g1 < g2 \<and> rawCoMentions s4 = fst r2 \<and> rawEntities s4 = snd r2 \<and> loading s4 = False)"
    by (simp add: effectRun_def effectResolved_def Let_def split: option.splits)
  have b: "(let (v1, c1) = fetchData_begin c;
           (v2, c2) = fetchData_begin c1;
           c3 = fetchData_resolved v2 d2 c2;
           c4 = fetchData_resolved v1 d1 c3
       in v1 < v2 \<and> entities c4 = fst d2 \<and> totalCount c4 = snd d2
          \<and> loading_chart c4 = False)"
    by (simp add: fetchData_begin_def fetchData_resolved_def Let_def)
  have ok: "fetch_ok (fetch_run initialGraphFetch evs)"
    using fetch_ok_init by (rule fetch_ok_run)
  have c: "mounted (fetch_run initialGraphFetch evs) \<noteq> Some g
        \<longrightarrow> effectResolved g r (fetch_run initialGraphFetch evs)
              = fetch_run initialGraphFetch evs"
    using superseded_ignored(1)[OF ok] by blast
  have d: "filterVersionRef c \<noteq> v \<longrightarrow> fetchData_resolved v d c = c"
    by (simp add: fetchData_resolved_def)
  show ?thesis by (intro conjI a b c d)
qed

text \<open>
  Claim C7, on a concrete history of \<open>NetworkGraph\<close>: two runs of the effect, then the
  response of the second run (the pair A-B), then the late response of the first run (the pair
  B-C). The late response changes nothing and the stored pairs are those of the second run.
\<close>

theorem stale_response_rejected_witness:
  "mounted (fetch_run initialGraphFetch
        [EffectRun, EffectRun, Resolved 1 ([pairAB], [entA, entB])]) = Some 1
   \<and> effectResolved 0 ([pairBC], [entB, entC])
        (fetch_run initialGraphFetch [EffectRun, EffectRun, Resolved 1 ([pairAB], [entA, entB])])
      = fetch_run initialGraphFetch [EffectRun, EffectRun, Resolved 1 ([pairAB], [entA, entB])]
   \<and> rawCoMentions (fetch_run initialGraphFetch
        [EffectRun, EffectRun, Resolved 1 ([pairAB], [entA, entB]),
         Resolved 0 ([pairBC], [entB, entC])]) = [pairAB]"
proof -
  let ?s = "fetch_run initialGraphFetch
              [EffectRun, EffectRun, Resolved 1 ([pairAB], [entA, entB])]"
  have m: "mounted ?s = Some 1"
    by (simp add: fetch_run_def initialGraphFetch_def effectRun_def effectResolved_def Let_def)
  then have h: "mounted ?s \<noteq> Some 0" by simp
  have e: "effectResolved 0 ([pairBC], [entB, entC]) ?s = ?s"
    using stale_response_rejected[where
        evs = "[EffectRun, EffectRun, Resolved 1 ([pairAB], [entA, entB])]"
        and g = 0 and r = "([pairBC], [entB, entC])"] h
    by simp
  have r: "rawCoMentions ?s = [pairAB]"
    by (simp add: fetch_run_def initialGraphFetch_def effectRun_def effectResolved_def Let_def)
  have "fetch_run initialGraphFetch
        [EffectRun, EffectRun, Resolved 1 ([pairAB], [entA, entB]),
         Resolved 0 ([pairBC], [entB, entC])]
        = effectResolved 0 ([pairBC], [entB, entC]) ?s"
    by (simp add: fetch_run_def)
  then show ?thesis using e m r by simp
qed

section \<open>Detail cache: the claim\<close>

text \<open>
  What the bookkeeping does achieve: an identifier that is pending is fetched again neither by
  a hover nor by a visible window.
\<close>

lemma pending_not_refetched:
  assumes "i \<in> pendingRef s"
  shows "fetched (handleRowMouseEnter i s) = fetched s"
    and "count_list (fetched (visibleIdsEffect ids s)) i = count_list (fetched s) i"
proof -
  show "fetched (handleRowMouseEnter i s) = fetched s"
    using assms by (simp add: handleRowMouseEnter_def)
  have "i \<notin> set (filter (\<lambda>j. breakdownCache s j = None \<and> j \<notin> pendingRef s) ids)"
    using assms by simp
  then have "count_list (filter (\<lambda>j. breakdownCache s j = None \<and> j \<notin> pendingRef s) ids) i = 0"
    by (induction ids) auto
  then show "count_list (fetched (visibleIdsEffect ids s)) i = count_list (fetched s) i"
    by (simp add: visibleIdsEffect_def Let_def)
qed

text \<open>
  Claim C8 (detail-cache dedup and retryability: a call is issued only for an identifier that
  is neither cached nor pending, so concurrent requests for one identifier cause one call; a
  failed call leaves the identifier out of the cache). The visible-window effect filters the
  whole list before it marks anything pending. When the list names \<open>f2\<close> twice (two visible
  rows of the same entity, as after \<open>loadMore\<close> appended a page that overlaps the rows already
  held), both occurrences pass the filter: two calls for \<open>f2\<close> are under way at once. When the
  first of them fulfils and the second then rejects, \<open>f2\<close> is in the cache although its last
  call failed.
\<close>

theorem repeated_identifier_fetched_twice:
  "fetched (visibleIdsEffect [''f2'', ''f2''] emptyDetailCache) = [''f2'', ''f2'']
   \<and> inflight (visibleIdsEffect [''f2'', ''f2''] emptyDetailCache)
       = [(''f2'', VisibleWindow), (''f2'', VisibleWindow)]
   \<and> inflight (fetchSucceeds 0 [\<lparr> section_label = ''court'', mention_count = 3 \<rparr>]
         (visibleIdsEffect [''f2'', ''f2''] emptyDetailCache)) = [(''f2'', VisibleWindow)]
   \<and> breakdownCache
       (fetchFails 0
          (fetchSucceeds 0 [\<lparr> section_label = ''court'', mention_count = 3 \<rparr>]
             (visibleIdsEffect [''f2'', ''f2''] emptyDetailCache))) ''f2''
       = Some [\<lparr> section_label = ''court'', mention_count = 3 \<rparr>]"
  by (simp add: visibleIdsEffect_def emptyDetailCache_def fetchSucceeds_def fetchFails_def
      removeAt_def Let_def)

end
